theory Spec2Isabelle
  imports Main "HOL-Library.AList"
begin

section \<open>Python values and failures\<close>

text \<open>
  Embedding of \<^verbatim>\<open>catalog_server/in_memory_catalog.py\<close>. Python integers are
  unbounded, so they are \<^typ>\<open>int\<close>; an argument that may be \<^verbatim>\<open>None\<close> is an
  \<^typ>\<open>int option\<close>. Every exception the code can raise is a constructor of
  \<open>error\<close>, and a function that can raise returns \<open>error + 'a\<close> with the
  exception on the left.
\<close>

datatype error =
    IndexError
  | ValueError
  | TypeError
  | NotImplementedError
  | KeyError
  | AttributeError
  | StopIteration
  | UnsupportedQuery
  | InvalidRef

text \<open>
  \<^verbatim>\<open>itertools.islice(it, start, stop)\<close> of the standard library: the elements at
  the positions \<open>start \<le> i < stop\<close>; \<^verbatim>\<open>None\<close> is 0 for the start and no bound
  for the stop; a negative bound raises \<^verbatim>\<open>ValueError\<close>. The library also
  rejects a bound above \<^verbatim>\<open>sys.maxsize\<close>; lists here have no such limit, and
  that bound is not modelled.
\<close>

definition islice :: "'a list \<Rightarrow> int option \<Rightarrow> int option \<Rightarrow> error + 'a list" where
  "islice xs start stop =
     (if (case start of None \<Rightarrow> False | Some s \<Rightarrow> s < 0)
         \<or> (case stop of None \<Rightarrow> False | Some t \<Rightarrow> t < 0)
      then Inl ValueError
      else (let s = (case start of None \<Rightarrow> 0 | Some s \<Rightarrow> nat s)
            in case stop of
                 None \<Rightarrow> Inr (drop s xs)
               | Some t \<Rightarrow> Inr (drop s (take (nat t) xs))))"

text \<open>Running a fallible function over a list stops at the first failure.\<close>

fun traverse :: "('a \<Rightarrow> error + 'b) \<Rightarrow> 'a list \<Rightarrow> error + 'b list" where
  "traverse f [] = Inr []"
| "traverse f (x # xs) =
     (case f x of
        Inl e \<Rightarrow> Inl e
      | Inr y \<Rightarrow> (case traverse f xs of Inl e \<Rightarrow> Inl e | Inr ys \<Rightarrow> Inr (y # ys)))"

text \<open>
  The builtin \<^verbatim>\<open>len(x)\<close> calls \<^verbatim>\<open>x.__len__()\<close> and raises
  \<^verbatim>\<open>ValueError\<close> when the method returns a negative number.
\<close>

definition builtin_len :: "error + int \<Rightarrow> error + int" where
  "builtin_len r =
     (case r of Inl e \<Rightarrow> Inl e | Inr n \<Rightarrow> if n < 0 then Inl ValueError else Inr n)"

section \<open>Metadata\<close>

text \<open>
  Metadata is a nested structure of dicts with string keys, sequences and strings;
  \<open>MOther\<close> stands for any other leaf (a number, \<^verbatim>\<open>None\<close>): not a string, without
  \<^verbatim>\<open>items\<close>, not iterable. A dict is an association list in insertion order.
\<close>

datatype meta =
    MStr string
  | MMap "(string \<times> meta) list"
  | MSeq "meta list"
  | MOther

section \<open>The catalog\<close>

text \<open>
  \<^verbatim>\<open>class Catalog\<close>: the slots \<^verbatim>\<open>_mapping\<close> and \<^verbatim>\<open>_metadata\<close>, and the
  class of the object (\<^verbatim>\<open>type(self)\<close>), which \<^verbatim>\<open>full_text_search\<close> reads. The
  mapping is a dict, kept as an association list in iteration order; the values are of
  any type \<open>'v\<close>.
\<close>

record 'v catalog =
  cls :: string
  mapping :: "(string \<times> 'v) list"
  metadata :: "(string \<times> meta) list"

definition Catalog_init ::
  "string \<Rightarrow> (string \<times> 'v) list \<Rightarrow> (string \<times> meta) list option \<Rightarrow> 'v catalog" where
  "Catalog_init c m md =
     \<lparr>cls = c, mapping = m, metadata = (case md of None \<Rightarrow> [] | Some d \<Rightarrow> d)\<rparr>"

definition catalog_keys :: "'v catalog \<Rightarrow> string list" where
  "catalog_keys c = map fst (mapping c)"

definition catalog_getitem :: "'v catalog \<Rightarrow> string \<Rightarrow> error + 'v" where
  "catalog_getitem c key =
     (case map_of (mapping c) key of None \<Rightarrow> Inl KeyError | Some v \<Rightarrow> Inr v)"

definition catalog_len :: "'v catalog \<Rightarrow> int" where
  "catalog_len c = int (length (mapping c))"

definition catalog_keys_slice ::
  "'v catalog \<Rightarrow> int option \<Rightarrow> int option \<Rightarrow> error + string list" where
  "catalog_keys_slice c start stop = islice (catalog_keys c) start stop"

definition catalog_items_slice ::
  "'v catalog \<Rightarrow> int option \<Rightarrow> int option \<Rightarrow> error + (string \<times> 'v) list" where
  "catalog_items_slice c start stop =
     (case catalog_keys_slice c start stop of
        Inl e \<Rightarrow> Inl e
      | Inr ks \<Rightarrow>
          traverse (\<lambda>key. case catalog_getitem c key of
                             Inl e \<Rightarrow> Inl e
                           | Inr v \<Rightarrow> Inr (key, v)) ks)"

definition catalog_item_by_index :: "'v catalog \<Rightarrow> int \<Rightarrow> error + (string \<times> 'v)" where
  "catalog_item_by_index c index =
     (if index \<ge> catalog_len c then Inl IndexError
      else (case islice (catalog_keys c) (Some index) (Some (1 + index)) of
              Inl e \<Rightarrow> Inl e
            | Inr [] \<Rightarrow> Inl StopIteration
            | Inr (key # _) \<Rightarrow>
                (case catalog_getitem c key of
                   Inl e \<Rightarrow> Inl e
                 | Inr v \<Rightarrow> Inr (key, v))))"

section \<open>Interval arithmetic\<close>

text \<open>A slice object \<^verbatim>\<open>slice(start, stop, step)\<close>; each part may be \<^verbatim>\<open>None\<close>.\<close>

record slice =
  start :: "int option"
  stop :: "int option"
  step :: "int option"

definition slice_to_interval :: "slice \<Rightarrow> error + (int \<times> int option)" where
  "slice_to_interval index =
     (case (case start index of
              None \<Rightarrow> Inr 0
            | Some s \<Rightarrow> if s < 0 then Inl NotImplementedError else Inr s) of
        Inl e \<Rightarrow> Inl e
      | Inr s \<Rightarrow>
          (case stop index of
             None \<Rightarrow> Inr (s, None)
           | Some t \<Rightarrow> if t < 0 then Inl NotImplementedError else Inr (s, Some t)))"

text \<open>
  \<^verbatim>\<open>_compose_intervals(a, b)\<close>. The start treats a missing \<^verbatim>\<open>a_start\<close> or
  \<^verbatim>\<open>b_start\<close> as 0; the stop adds \<^verbatim>\<open>a_start\<close> to \<^verbatim>\<open>b_stop\<close> as it is, and
  in Python \<^verbatim>\<open>int + None\<close> raises \<^verbatim>\<open>TypeError\<close>.
\<close>

definition compose_intervals ::
  "int option \<times> int option \<Rightarrow> int option \<times> int option \<Rightarrow> error + (int \<times> int option)" where
  "compose_intervals a b =
     (case a of (a_start, a_stop) \<Rightarrow>
      case b of (b_start, b_stop) \<Rightarrow>
        (let start' =
               (case a_start of
                  None \<Rightarrow> (case b_start of None \<Rightarrow> 0 | Some b0 \<Rightarrow> b0)
                | Some a0 \<Rightarrow> (case b_start of None \<Rightarrow> a0 | Some b0 \<Rightarrow> a0 + b0))
         in case a_stop of
              None \<Rightarrow>
                (case b_stop of
                   None \<Rightarrow> Inr (start', None)
                 | Some b1 \<Rightarrow>
                     (case a_start of
                        None \<Rightarrow> Inl TypeError
                      | Some a0 \<Rightarrow> Inr (start', Some (b1 + a0))))
            | Some a1 \<Rightarrow>
                (case b_stop of
                   None \<Rightarrow> Inr (start', Some a1)
                 | Some b1 \<Rightarrow>
                     (case a_start of
                        None \<Rightarrow> Inl TypeError
                      | Some a0 \<Rightarrow> Inr (start', Some (min a1 (b1 + a0)))))))"

section \<open>The lazy views\<close>

text \<open>
  \<^verbatim>\<open>CatalogKeysSequence\<close>, \<^verbatim>\<open>CatalogValuesSequence\<close> and
  \<^verbatim>\<open>CatalogItemsSequence\<close> share \<^verbatim>\<open>CatalogBaseSequence\<close> and differ in what
  they project. The ancestor of a view is a catalog or another view; the methods that a
  view calls on its ancestor (\<^verbatim>\<open>__len__\<close>, \<^verbatim>\<open>_item_by_index\<close>,
  \<^verbatim>\<open>_items_slice\<close>, \<^verbatim>\<open>_keys_slice\<close>) are dispatched on the constructor.
\<close>

datatype kind = Keys | Values | Items

datatype 'v node =
    Cat "'v catalog"
  | Seq kind "'v node" int "int option"

definition CatalogBaseSequence_init ::
  "kind \<Rightarrow> 'v node \<Rightarrow> int option \<Rightarrow> int option \<Rightarrow> 'v node" where
  "CatalogBaseSequence_init k ancestor start0 stop0 =
     Seq k ancestor (case start0 of None \<Rightarrow> 0 | Some s \<Rightarrow> s) stop0"

definition keys_indexer :: "'v catalog \<Rightarrow> 'v node" where
  "keys_indexer c = CatalogBaseSequence_init Keys (Cat c) (Some 0) None"

definition items_indexer :: "'v catalog \<Rightarrow> 'v node" where
  "items_indexer c = CatalogBaseSequence_init Items (Cat c) (Some 0) None"

definition values_indexer :: "'v catalog \<Rightarrow> 'v node" where
  "values_indexer c = CatalogBaseSequence_init Values (Cat c) (Some 0) None"

text \<open>\<^verbatim>\<open>__len__\<close>: what the method returns, before the builtin checks the sign.\<close>

fun dunder_len :: "'v node \<Rightarrow> error + int" where
  "dunder_len (Cat c) = Inr (catalog_len c)"
| "dunder_len (Seq k ancestor start0 stop0) =
     (case builtin_len (dunder_len ancestor) of
        Inl e \<Rightarrow> Inl e
      | Inr n \<Rightarrow>
          (let len0 = n - start0
           in case stop0 of
                None \<Rightarrow> Inr len0
              | Some t \<Rightarrow> if len0 > t - start0 then Inr (t - start0) else Inr len0))"

definition len :: "'v node \<Rightarrow> error + int" where
  "len v = builtin_len (dunder_len v)"

fun item_by_index :: "'v node \<Rightarrow> int \<Rightarrow> error + (string \<times> 'v)" where
  "item_by_index (Cat c) index = catalog_item_by_index c index"
| "item_by_index (Seq k ancestor start0 stop0) index =
     item_by_index ancestor (index + start0)"

fun items_slice ::
  "'v node \<Rightarrow> int option \<Rightarrow> int option \<Rightarrow> error + (string \<times> 'v) list" where
  "items_slice (Cat c) s t = catalog_items_slice c s t"
| "items_slice (Seq k ancestor start0 stop0) s t =
     (case compose_intervals (Some start0, stop0) (s, t) of
        Inl e \<Rightarrow> Inl e
      | Inr (agg_start, agg_stop) \<Rightarrow> items_slice ancestor (Some agg_start) agg_stop)"

fun keys_slice :: "'v node \<Rightarrow> int option \<Rightarrow> int option \<Rightarrow> error + string list" where
  "keys_slice (Cat c) s t = catalog_keys_slice c s t"
| "keys_slice (Seq k ancestor start0 stop0) s t =
     (case compose_intervals (Some start0, stop0) (s, t) of
        Inl e \<Rightarrow> Inl e
      | Inr (agg_start, agg_stop) \<Rightarrow> keys_slice ancestor (Some agg_start) agg_stop)"

text \<open>What a view yields or returns: a key, a value, or the pair.\<close>

datatype 'v elem = Key string | Value 'v | Item string 'v

fun project :: "kind \<Rightarrow> string \<times> 'v \<Rightarrow> 'v elem" where
  "project Keys (key, value) = Key key"
| "project Values (key, value) = Value value"
| "project Items (key, value) = Item key value"

text \<open>
  \<^verbatim>\<open>__iter__\<close>, with the iterator driven to its end as a \<^verbatim>\<open>for\<close> loop does
  (\<^verbatim>\<open>len()\<close> is not asked). A key view asks its ancestor for the keys, the other
  two for the items.
\<close>

fun iter :: "'v node \<Rightarrow> error + 'v elem list" where
  "iter (Cat c) = Inr (map Key (catalog_keys c))"
| "iter (Seq Keys ancestor start0 stop0) =
     (case keys_slice ancestor (Some start0) stop0 of
        Inl e \<Rightarrow> Inl e
      | Inr ks \<Rightarrow> Inr (map Key ks))"
| "iter (Seq Items ancestor start0 stop0) =
     (case items_slice ancestor (Some start0) stop0 of
        Inl e \<Rightarrow> Inl e
      | Inr kvs \<Rightarrow> Inr (map (project Items) kvs))"
| "iter (Seq Values ancestor start0 stop0) =
     (case items_slice ancestor (Some start0) stop0 of
        Inl e \<Rightarrow> Inl e
      | Inr kvs \<Rightarrow> Inr (map (project Values) kvs))"

text \<open>
  \<^verbatim>\<open>__getitem__\<close>. The argument is an integer, a slice or a string (the only
  other index this development needs: the key of a catalog). A view projects the item
  at an integer, wraps itself in a new view of its own class at a slice, and raises
  \<^verbatim>\<open>TypeError\<close> otherwise. A catalog looks the argument up in its dict, whose
  keys are strings: an integer is not a key, and a slice cannot be hashed (Python before
  3.12).
\<close>

datatype index = IntIdx int | SliceIdx slice | KeyIdx string

datatype 'v got = Elem "'v elem" | View "'v node"

fun getitem :: "'v node \<Rightarrow> index \<Rightarrow> error + 'v got" where
  "getitem (Cat c) (KeyIdx key) =
     (case catalog_getitem c key of Inl e \<Rightarrow> Inl e | Inr v \<Rightarrow> Inr (Elem (Value v)))"
| "getitem (Cat c) (IntIdx i) = Inl KeyError"
| "getitem (Cat c) (SliceIdx sl) = Inl TypeError"
| "getitem (Seq k ancestor start0 stop0) (IntIdx i) =
     (case item_by_index (Seq k ancestor start0 stop0) i of
        Inl e \<Rightarrow> Inl e
      | Inr kv \<Rightarrow> Inr (Elem (project k kv)))"
| "getitem (Seq k ancestor start0 stop0) (SliceIdx sl) =
     (case slice_to_interval sl of
        Inl e \<Rightarrow> Inl e
      | Inr (s, t) \<Rightarrow>
          Inr (View (CatalogBaseSequence_init k (Seq k ancestor start0 stop0) (Some s) t)))"
| "getitem (Seq k ancestor start0 stop0) (KeyIdx key) = Inl TypeError"

section \<open>Strings\<close>

text \<open>
  A Python \<^verbatim>\<open>str\<close> is a sequence of code points. Here a \<^typ>\<open>char\<close> is one code
  point below 256, read with \<^const>\<open>of_char\<close>. On these, \<^verbatim>\<open>str.lower\<close> adds 32
  to \<open>A\<close>..\<open>Z\<close> and to U+00C0..U+00DE except the multiplication sign U+00D7, and
  \<^verbatim>\<open>str.split()\<close> without argument cuts at runs of the characters for which
  \<^verbatim>\<open>str.isspace\<close> holds: U+0009..U+000D, U+001C..U+0020, U+0085 and U+00A0.
\<close>

definition is_space :: "char \<Rightarrow> bool" where
  "is_space c = ((of_char c :: nat) \<in> {9, 10, 11, 12, 13, 28, 29, 30, 31, 32, 133, 160})"

definition lower_char :: "char \<Rightarrow> char" where
  "lower_char c =
     (let n = (of_char c :: nat)
      in if (65 \<le> n \<and> n \<le> 90) \<or> (192 \<le> n \<and> n \<le> 222 \<and> n \<noteq> 215)
         then char_of (n + 32) else c)"

definition str_lower :: "string \<Rightarrow> string" where
  "str_lower s = map lower_char s"

text \<open>\<open>split_from w cs\<close>: the words of \<open>cs\<close>, the first one continuing \<open>w\<close>.\<close>

fun split_from :: "string \<Rightarrow> string \<Rightarrow> string list" where
  "split_from w [] = (if w = [] then [] else [w])"
| "split_from w (c # cs) =
     (if is_space c
      then (if w = [] then split_from [] cs else w # split_from [] cs)
      else split_from (w @ [c]) cs)"

definition str_split :: "string \<Rightarrow> string list" where
  "str_split s = split_from [] s"

section \<open>Full-text search\<close>

text \<open>
  \<^verbatim>\<open>walk_string_values(tree, node)\<close> with a node reads \<^verbatim>\<open>tree[node]\<close> and
  yields it if it is a string, walks every key of it if it has \<^verbatim>\<open>items\<close>, and
  yields its string elements (only those) if it is another iterable. A dict yields each
  of its keys once and \<^verbatim>\<open>tree[node]\<close> is the value stored under that key, so the
  walk over the keys of a dict visits the pairs of the association list in order:
  \<open>walk_node\<close> is the branch on the value read, \<open>walk_string_values\<close> the loop
  over the whole tree (\<^verbatim>\<open>node=None\<close>).
\<close>

fun walk_node :: "meta \<Rightarrow> string list" where
  "walk_node (MStr s) = [s]"
| "walk_node (MMap kvs) = concat (map (\<lambda>kv. walk_node (snd kv)) kvs)"
| "walk_node (MSeq items) =
     concat (map (\<lambda>item. case item of MStr s \<Rightarrow> [s] | _ \<Rightarrow> []) items)"
| "walk_node MOther = []"

definition walk_string_values :: "(string \<times> meta) list \<Rightarrow> string list" where
  "walk_string_values tree = concat (map (\<lambda>kv. walk_node (snd kv)) tree)"

text \<open>
  \<^verbatim>\<open>full_text_search\<close> builds a new dict and a new catalog object and keeps the
  values it finds by reference, so objects live in a store: an address is a position in
  the list of objects allocated so far, and allocation appends. The values of a catalog
  are addresses.
\<close>

type_synonym addr = nat

text \<open>
  Modelled from the spec: the leaf data sources (\<^verbatim>\<open>catalog_server.datasources\<close>)
  are not part of the source. A leaf (\<open>SourceObj\<close>) is opaque except for its
  metadata, the one capability that the full-text handler needs of a value.
\<close>

datatype obj =
    CatalogObj "addr catalog"
  | SourceObj "(string \<times> meta) list"

type_synonym heap = "obj list"

definition deref :: "heap \<Rightarrow> addr \<Rightarrow> obj option" where
  "deref h a = (if a < length h then Some (h ! a) else None)"

definition alloc :: "heap \<Rightarrow> obj \<Rightarrow> heap \<times> addr" where
  "alloc h ob = (h @ [ob], length h)"

text \<open>
  Modelled from the spec: \<^verbatim>\<open>DictView\<close> (\<^verbatim>\<open>catalog_server.queries\<close>), the
  read-only view that the property \<^verbatim>\<open>Catalog.metadata\<close> wraps around
  \<^verbatim>\<open>_metadata\<close>, is not part of the source; it reads as the dict it wraps.
\<close>

fun metadata_of :: "obj \<Rightarrow> (string \<times> meta) list" where
  "metadata_of (CatalogObj c) = metadata c"
| "metadata_of (SourceObj md) = md"

text \<open>
  Modelled from the spec: the query classes (\<^verbatim>\<open>catalog_server.queries\<close>) are not
  part of the source. A \<open>Text\<close> query carries a free-text string; \<open>Other\<close> is a
  query of any other shape, with the name of its shape.
\<close>

datatype query = Text string | Other string

text \<open>
  The words of an entry: every string of the metadata of the value, lower-cased and
  split. An address without an object is \<open>InvalidRef\<close>; Python has no such state.
\<close>

definition entry_words :: "heap \<Rightarrow> addr \<Rightarrow> error + string list" where
  "entry_words h v =
     (case deref h v of
        None \<Rightarrow> Inl InvalidRef
      | Some ob \<Rightarrow>
          Inr (concat (map (\<lambda>s. str_split (str_lower s))
                           (walk_string_values (metadata_of ob)))))"

definition isdisjoint :: "string list \<Rightarrow> string list \<Rightarrow> bool" where
  "isdisjoint ws qs = (set ws \<inter> set qs = {})"

text \<open>
  The loop over \<^verbatim>\<open>catalog.items()\<close>, which yields \<^verbatim>\<open>(key, catalog[key])\<close> for
  each key in turn; \<^verbatim>\<open>matches[key] = value\<close> is \<^const>\<open>AList.update\<close>: it
  replaces the value of a key already there and appends a new key at the end.
\<close>

fun search_loop ::
  "heap \<Rightarrow> string list \<Rightarrow> addr catalog \<Rightarrow> string list \<Rightarrow> (string \<times> addr) list
     \<Rightarrow> error + (string \<times> addr) list" where
  "search_loop h query_words c [] matches = Inr matches"
| "search_loop h query_words c (key # rest) matches =
     (case catalog_getitem c key of
        Inl e \<Rightarrow> Inl e
      | Inr v \<Rightarrow>
          (case entry_words h v of
             Inl e \<Rightarrow> Inl e
           | Inr ws \<Rightarrow>
               if \<not> isdisjoint ws query_words
               then search_loop h query_words c rest (AList.update key v matches)
               else search_loop h query_words c rest matches))"

definition full_text_search :: "heap \<Rightarrow> query \<Rightarrow> addr \<Rightarrow> error + (heap \<times> addr)" where
  "full_text_search h q catalog =
     (case q of
        Other _ \<Rightarrow> Inl AttributeError
      | Text t \<Rightarrow>
          (case deref h catalog of
             None \<Rightarrow> Inl InvalidRef
           | Some (SourceObj _) \<Rightarrow> Inl AttributeError
           | Some (CatalogObj c) \<Rightarrow>
               (case search_loop h (str_split (str_lower t)) c (catalog_keys c) [] of
                  Inl e \<Rightarrow> Inl e
                | Inr matches \<Rightarrow>
                    Inr (alloc h (CatalogObj (Catalog_init (cls c) matches None))))))"

text \<open>
  Modelled from the spec: \<^verbatim>\<open>QueryTranslationRegistry\<close>
  (\<^verbatim>\<open>catalog_server.queries\<close>) is not part of the source. It is a table from the
  shape of a query to a handler; \<open>register\<close> inserts or overwrites; \<open>dispatch\<close>
  fails with \<open>UnsupportedQuery\<close> when the shape has no handler and returns the result
  of the handler unchanged otherwise. The last line of the module registers
  \<^verbatim>\<open>full_text_search\<close> for \<^verbatim>\<open>Text\<close>, and \<^verbatim>\<open>Catalog.search\<close> dispatches on
  that registry.
\<close>

datatype shape = TextShape | OtherShape string

fun shape_of :: "query \<Rightarrow> shape" where
  "shape_of (Text t) = TextShape"
| "shape_of (Other name) = OtherShape name"

type_synonym handler = "heap \<Rightarrow> query \<Rightarrow> addr \<Rightarrow> error + (heap \<times> addr)"

definition register ::
  "(shape \<times> handler) list \<Rightarrow> shape \<Rightarrow> handler \<Rightarrow> (shape \<times> handler) list" where
  "register reg s f = AList.update s f reg"

definition dispatch ::
  "(shape \<times> handler) list \<Rightarrow> heap \<Rightarrow> query \<Rightarrow> addr \<Rightarrow> error + (heap \<times> addr)" where
  "dispatch reg h q c =
     (case map_of reg (shape_of q) of
        None \<Rightarrow> Inl UnsupportedQuery
      | Some f \<Rightarrow> f h q c)"

definition query_registry :: "(shape \<times> handler) list" where
  "query_registry = register [] TextShape full_text_search"

definition search :: "heap \<Rightarrow> addr \<Rightarrow> query \<Rightarrow> error + (heap \<times> addr)" where
  "search h self q = dispatch query_registry h q self"

section \<open>Notation for the statements\<close>

text \<open>The slice \<^verbatim>\<open>a:b\<close>, that is \<^verbatim>\<open>slice(a, b, None)\<close>.\<close>

definition colon :: "int option \<Rightarrow> int option \<Rightarrow> slice" where
  "colon a b = \<lparr>start = a, stop = b, step = None\<rparr>"

text \<open>Whether a bound of a slice is present and negative.\<close>

definition negative_bound :: "int option \<Rightarrow> bool" where
  "negative_bound x = (case x of None \<Rightarrow> False | Some n \<Rightarrow> n < 0)"

text \<open>
  The string leaves of a piece of metadata, in the words of the spec (section 4.5) and
  not read off the walk of the source: a scalar string is taken directly; a mapping
  gives the string leaves of each of its values; a sequence gives those of its elements
  that are strings, and its other elements are skipped with whatever they hold.
  Nothing else is a string leaf.
\<close>

inductive string_leaf :: "meta \<Rightarrow> string \<Rightarrow> bool" where
  scalar: "string_leaf (MStr s) s"
| mapping_value: "(k, v) \<in> set kvs \<Longrightarrow> string_leaf v s \<Longrightarrow> string_leaf (MMap kvs) s"
| sequence_element: "MStr s \<in> set items \<Longrightarrow> string_leaf (MSeq items) s"

code_pred string_leaf .

text \<open>
  The word set of a metadata dict: the words of its string leaves, each lower-cased
  and split at whitespace.
\<close>

definition metadata_words :: "(string \<times> meta) list \<Rightarrow> string set" where
  "metadata_words md =
     {w. \<exists>s. string_leaf (MMap md) s \<and> w \<in> set (str_split (str_lower s))}"

text \<open>
  An entry matches a text when the word set of the metadata of its value meets the set
  of the words of the text, lower-cased and split.
\<close>

definition entry_matches :: "heap \<Rightarrow> string \<Rightarrow> addr \<Rightarrow> bool" where
  "entry_matches h t v =
     (metadata_words (metadata_of (h ! v)) \<inter> set (str_split (str_lower t)) \<noteq> {})"

text \<open>Every value of the catalog is the address of an object of the store.\<close>

definition valid_values :: "heap \<Rightarrow> addr catalog \<Rightarrow> bool" where
  "valid_values h c = list_all (\<lambda>kv. snd kv < length h) (mapping c)"

section \<open>Slicing by eager composition\<close>

text \<open>
  This variant is not in the source. It follows the words of the spec (section 4.3):
  instead of wrapping the view, compose the interval of the request with the window of
  the view and build the new view on the ancestor of the view. Every other index is
  handled as in \<open>getitem\<close>.
\<close>

fun getitem_eager :: "'v node \<Rightarrow> index \<Rightarrow> error + 'v got" where
  "getitem_eager (Seq k ancestor start0 stop0) (SliceIdx sl) =
     (case slice_to_interval sl of
        Inl e \<Rightarrow> Inl e
      | Inr (s, t) \<Rightarrow>
          (case compose_intervals (Some start0, stop0) (Some s, t) of
             Inl e \<Rightarrow> Inl e
           | Inr (s', t') \<Rightarrow> Inr (View (CatalogBaseSequence_init k ancestor (Some s') t'))))"
| "getitem_eager v i = getitem v i"

section \<open>Example objects\<close>

text \<open>A catalog with the keys a, b, c, d in that order.\<close>

definition abcd :: "nat catalog" where
  "abcd = Catalog_init ''Catalog'' [(''a'', 1), (''b'', 2), (''c'', 3), (''d'', 4)] None"

text \<open>
  A store with two data sources, whose metadata name a fruit, and at address 2 the
  catalog \<open>{"a": X, "b": Y}\<close> of the two.
\<close>

definition fruit_heap :: heap where
  "fruit_heap =
     [SourceObj [(''fruit'', MStr ''apple'')],
      SourceObj [(''fruit'', MStr ''banana'')],
      CatalogObj (Catalog_init ''Catalog'' [(''a'', 0), (''b'', 1)] None)]"

text \<open>
  A store with nested metadata. The source at 0 holds "Red Apple" two mappings deep
  and a sequence with a string, a mapping and a number. The source at 1 holds "apple"
  only inside elements of a sequence that are not strings. The catalog at 2 holds
  "apple" as a string element of a sequence. The catalog at 3, with metadata of its
  own, has the three as its values.
\<close>

definition nested_heap :: heap where
  "nested_heap =
     [SourceObj [(''sample'', MMap [(''fruit'', MMap [(''name'', MStr ''Red Apple'')]),
                                    (''tags'', MSeq [MStr ''ripe'',
                                                     MMap [(''hidden'', MStr ''kiwi'')],
                                                     MOther])]),
                 (''count'', MOther)],
      SourceObj [(''tags'', MSeq [MMap [(''hidden'', MStr ''apple'')],
                                  MSeq [MStr ''apple'']])],
      CatalogObj (Catalog_init ''Catalog'' [] (Some [(''animals'', MSeq [MStr ''Dog'', MStr ''apple''])])),
      CatalogObj (Catalog_init ''Catalog'' [(''x'', 0), (''y'', 1), (''z'', 2)]
                    (Some [(''note'', MStr ''apple'')]))]"

section \<open>Interval arithmetic: properties\<close>

text \<open>
  With the start of the outer window present, as it is in every view,
  \<open>compose_intervals\<close> returns: the sum of the starts, and the stop of the inner
  window moved by the outer start and cut at the outer stop.
\<close>

lemma compose_intervals_present:
  "compose_intervals (Some a0, a1) (b0, b1) =
     Inr (a0 + (case b0 of None \<Rightarrow> 0 | Some b \<Rightarrow> b),
          (case a1 of
             None \<Rightarrow> (case b1 of None \<Rightarrow> None | Some t \<Rightarrow> Some (t + a0))
           | Some q \<Rightarrow> (case b1 of None \<Rightarrow> Some q | Some t \<Rightarrow> Some (min q (t + a0)))))"
  by (simp add: compose_intervals_def split: option.splits)

text \<open>
  C5. The composition is claimed to return a start and a stop for all intervals with
  non-negative present components, an absent start counting as 0. With
  \<open>a = (None, None)\<close> and \<open>b = (None, 5)\<close> the start is computed as 0, but the stop
  is \<^verbatim>\<open>b_stop + a_start\<close>, that is \<^verbatim>\<open>5 + None\<close>: the call raises
  \<^verbatim>\<open>TypeError\<close> and returns nothing.
\<close>

theorem compose_intervals_absent_start_raises:
  "compose_intervals (None, None) (None, Some 5) = Inl TypeError"
  by (simp add: compose_intervals_def)

text \<open>
  C6. \<open>slice_to_interval\<close> fails with \<^verbatim>\<open>NotImplementedError\<close> (the spec's
  UnsupportedSlice) exactly when the start or the stop of the request is negative, and
  so does slicing any view; otherwise the interval is the start, or 0 when it is
  absent, and the stop as given, and the slice of a view is a view of the same class
  on that window.
\<close>

theorem slice_to_interval_spec:
  "slice_to_interval sl =
     (if negative_bound (start sl) \<or> negative_bound (stop sl)
      then Inl NotImplementedError
      else Inr (case start sl of None \<Rightarrow> 0 | Some s \<Rightarrow> s, stop sl))
   \<and> getitem (Seq k anc p q) (SliceIdx sl) =
     (if negative_bound (start sl) \<or> negative_bound (stop sl)
      then Inl NotImplementedError
      else Inr (View (Seq k (Seq k anc p q)
                       (case start sl of None \<Rightarrow> 0 | Some s \<Rightarrow> s) (stop sl))))"
  by (simp add: slice_to_interval_def negative_bound_def CatalogBaseSequence_init_def
           split: option.splits)

theorem slice_to_interval_spec_witness:
  "slice_to_interval \<lparr>start = Some (-1), stop = Some 4, step = None\<rparr> = Inl NotImplementedError
   \<and> slice_to_interval \<lparr>start = None, stop = Some 4, step = None\<rparr> = Inr (0, Some 4)
   \<and> getitem (Seq Keys (Cat abcd) 0 None)
        (SliceIdx \<lparr>start = Some 1, stop = Some (-4), step = None\<rparr>) = Inl NotImplementedError"
proof -
  have a: "slice_to_interval \<lparr>start = Some (-1), stop = Some 4, step = None\<rparr>
             = Inl NotImplementedError"
    using slice_to_interval_spec
            [of "\<lparr>start = Some (-1), stop = Some 4, step = None\<rparr>" Keys "Cat abcd" 0 None,
             THEN conjunct1]
    by (simp add: negative_bound_def)
  have b: "slice_to_interval \<lparr>start = None, stop = Some 4, step = None\<rparr> = Inr (0, Some 4)"
    using slice_to_interval_spec
            [of "\<lparr>start = None, stop = Some 4, step = None\<rparr>" Keys "Cat abcd" 0 None,
             THEN conjunct1]
    by (simp add: negative_bound_def)
  have c: "getitem (Seq Keys (Cat abcd) 0 None)
        (SliceIdx \<lparr>start = Some 1, stop = Some (-4), step = None\<rparr>) = Inl NotImplementedError"
    using slice_to_interval_spec
            [of "\<lparr>start = Some 1, stop = Some (-4), step = None\<rparr>" Keys "Cat abcd" 0 None,
             THEN conjunct2]
    by (simp only: negative_bound_def slice.simps option.case, simp)
  show ?thesis using a b c by blast
qed

section \<open>The catalog: properties\<close>

lemma islice_one:
  "0 \<le> i \<Longrightarrow> nat i < length xs \<Longrightarrow>
   islice xs (Some i) (Some (1 + i)) = Inr [xs ! nat i]"
  by (simp add: islice_def nat_add_distrib take_Suc_conv_app_nth)

text \<open>
  C7. For a non-negative \<open>i\<close>, \<open>item_by_index\<close> of a catalog fails with
  \<^verbatim>\<open>IndexError\<close> when \<open>i\<close> is at least the length, and otherwise returns the
  \<open>i\<close>-th key in iteration order together with the value that the catalog gives
  for that key.
\<close>

theorem catalog_item_by_index_spec:
  assumes "0 \<le> i"
  shows "(catalog_len c \<le> i \<longrightarrow> item_by_index (Cat c) i = Inl IndexError)
       \<and> (i < catalog_len c \<longrightarrow>
            (\<exists>v. catalog_getitem c (catalog_keys c ! nat i) = Inr v
               \<and> item_by_index (Cat c) i = Inr (catalog_keys c ! nat i, v)))"
proof (intro conjI impI)
  assume "catalog_len c \<le> i"
  then show "item_by_index (Cat c) i = Inl IndexError"
    by (simp add: catalog_item_by_index_def)
next
  assume lt: "i < catalog_len c"
  then have n: "nat i < length (mapping c)"
    using assms by (simp add: catalog_len_def)
  then have k: "islice (catalog_keys c) (Some i) (Some (1 + i)) = Inr [catalog_keys c ! nat i]"
    using assms by (simp add: islice_one catalog_keys_def)
  have "catalog_keys c ! nat i \<in> fst ` set (mapping c)"
    using n by (simp add: catalog_keys_def)
  then obtain v where v: "map_of (mapping c) (catalog_keys c ! nat i) = Some v"
    by (metis domD dom_map_of_conv_image_fst)
  show "\<exists>v. catalog_getitem c (catalog_keys c ! nat i) = Inr v
           \<and> item_by_index (Cat c) i = Inr (catalog_keys c ! nat i, v)"
    using lt k v by (simp add: catalog_item_by_index_def catalog_getitem_def)
qed

theorem catalog_item_by_index_spec_witness:
  "item_by_index (Cat abcd) 1 = Inr (''b'', 2) \<and> item_by_index (Cat abcd) 4 = Inl IndexError"
  using catalog_item_by_index_spec [of 1 abcd] catalog_item_by_index_spec [of 4 abcd]
  by (simp add: abcd_def Catalog_init_def catalog_len_def catalog_keys_def catalog_getitem_def)

section \<open>The lazy views: properties\<close>

text \<open>Every key of a catalog has a value, so reading the items of a list of keys succeeds.\<close>

lemma traverse_lookup:
  "set ks \<subseteq> fst ` set m \<Longrightarrow>
   \<exists>kvs. traverse (\<lambda>key. case (case map_of m key of None \<Rightarrow> Inl KeyError | Some v \<Rightarrow> Inr v) of
                            Inl e \<Rightarrow> Inl e | Inr v \<Rightarrow> Inr (key, v)) ks = Inr kvs
         \<and> map fst kvs = ks"
proof (induction ks)
  case Nil
  then show ?case by simp
next
  case (Cons k ks)
  then obtain kvs where kvs:
    "traverse (\<lambda>key. case (case map_of m key of None \<Rightarrow> Inl KeyError | Some v \<Rightarrow> Inr v) of
                            Inl e \<Rightarrow> Inl e | Inr v \<Rightarrow> Inr (key, v)) ks = Inr kvs"
    "map fst kvs = ks"
    by auto
  from Cons.prems have "k \<in> fst ` set m" by simp
  then obtain v where "map_of m k = Some v"
    by (metis domD dom_map_of_conv_image_fst)
  with kvs show ?case by simp
qed

lemma catalog_items_slice_ok:
  assumes "0 \<le> a" "0 \<le> b"
  shows "\<exists>kvs. catalog_items_slice c (Some a) (Some b) = Inr kvs
             \<and> map fst kvs = drop (nat a) (take (nat b) (catalog_keys c))"
proof -
  have "set (drop (nat a) (take (nat b) (catalog_keys c))) \<subseteq> fst ` set (mapping c)"
    by (metis catalog_keys_def set_drop_subset set_take_subset subset_trans set_map)
  from traverse_lookup [OF this] show ?thesis
    using assms
    by (simp add: catalog_items_slice_def catalog_keys_slice_def islice_def catalog_getitem_def)
qed

text \<open>
  C1. For \<open>0 \<le> p \<le> q \<le> len(C)\<close> and \<open>0 \<le> r \<le> s \<le> q - p\<close>, iterating
  \<^verbatim>\<open>C.items_indexer[p:q][r:s]\<close> and iterating
  \<^verbatim>\<open>C.items_indexer[p+r : min(q, p+s)]\<close> both succeed and give the same list of
  (key, value) pairs, of length \<open>s - r\<close>, which is also the \<^verbatim>\<open>len()\<close> of both
  views.
\<close>

theorem chained_slice_composition:
  assumes "0 \<le> p" "p \<le> q" "q \<le> catalog_len c" "0 \<le> r" "r \<le> s" "s \<le> q - p"
  shows "\<exists>v1 v2 v3 xs.
      getitem (items_indexer c) (SliceIdx (colon (Some p) (Some q))) = Inr (View v1)
    \<and> getitem v1 (SliceIdx (colon (Some r) (Some s))) = Inr (View v2)
    \<and> getitem (items_indexer c) (SliceIdx (colon (Some (p + r)) (Some (min q (p + s)))))
        = Inr (View v3)
    \<and> iter v2 = Inr xs \<and> iter v3 = Inr xs \<and> int (length xs) = s - r
    \<and> len v2 = Inr (s - r) \<and> len v3 = Inr (s - r)"
proof -
  let ?root = "Seq Items (Cat c) 0 None"
  let ?v1 = "Seq Items ?root p (Some q)"
  let ?v2 = "Seq Items ?v1 r (Some s)"
  let ?v3 = "Seq Items ?root (p + r) (Some (min q (p + s)))"
  have g1: "getitem (items_indexer c) (SliceIdx (colon (Some p) (Some q))) = Inr (View ?v1)"
    using assms
    by (simp add: items_indexer_def CatalogBaseSequence_init_def colon_def slice_to_interval_def)
  have g2: "getitem ?v1 (SliceIdx (colon (Some r) (Some s))) = Inr (View ?v2)"
    using assms
    by (simp add: CatalogBaseSequence_init_def colon_def slice_to_interval_def)
  have g3: "getitem (items_indexer c) (SliceIdx (colon (Some (p + r)) (Some (min q (p + s)))))
              = Inr (View ?v3)"
    using assms
    by (simp add: items_indexer_def CatalogBaseSequence_init_def colon_def slice_to_interval_def)
  have nn: "0 \<le> p + r" "0 \<le> min q (p + s)" using assms by auto
  from catalog_items_slice_ok [OF nn] obtain kvs where
    kvs: "catalog_items_slice c (Some (p + r)) (Some (min q (p + s))) = Inr kvs"
    and keys: "map fst kvs = drop (nat (p + r)) (take (nat (min q (p + s))) (catalog_keys c))"
    by blast
  have i2: "iter ?v2 = Inr (map (project Items) kvs)"
    using kvs by (simp add: compose_intervals_present add.commute)
  have i3: "iter ?v3 = Inr (map (project Items) kvs)"
    using kvs by (simp add: compose_intervals_present)
  have "length kvs = length (map fst kvs)" by simp
  also have "\<dots> = nat (s - r)"
    using assms unfolding keys by (auto simp: catalog_keys_def catalog_len_def min_def)
  finally have n: "int (length (map (project Items) kvs)) = s - r"
    using assms by simp
  have l2: "len ?v2 = Inr (s - r)"
    using assms by (auto simp: len_def builtin_len_def)
  have l3: "len ?v3 = Inr (s - r)"
    using assms by (auto simp: len_def builtin_len_def min_def)
  show ?thesis using g1 g2 g3 i2 i3 n l2 l3 by blast
qed

theorem chained_slice_composition_witness:
  "\<exists>v2 v3.
      getitem (Seq Items (items_indexer abcd) 1 (Some 4)) (SliceIdx (colon (Some 1) (Some 2)))
        = Inr (View v2)
    \<and> getitem (items_indexer abcd) (SliceIdx (colon (Some 2) (Some 3))) = Inr (View v3)
    \<and> iter v2 = Inr [Item ''c'' 3] \<and> iter v3 = Inr [Item ''c'' 3]
    \<and> len v2 = Inr 1 \<and> len v3 = Inr 1"
proof -
  have h: "(0::int) \<le> 1" "(1::int) \<le> 4" "4 \<le> catalog_len abcd" "(1::int) \<le> 2" "(2::int) \<le> 4 - 1"
    by (simp_all add: catalog_len_def abcd_def Catalog_init_def)
  from chained_slice_composition [OF h(1) h(2) h(3) h(1) h(4) h(5)]
  obtain v1 v2 v3 xs where
    *: "getitem (items_indexer abcd) (SliceIdx (colon (Some 1) (Some 4))) = Inr (View v1)"
       "getitem v1 (SliceIdx (colon (Some 1) (Some 2))) = Inr (View v2)"
       "getitem (items_indexer abcd) (SliceIdx (colon (Some (1 + 1)) (Some (min 4 (1 + 2)))))
          = Inr (View v3)"
       "iter v2 = Inr xs" "iter v3 = Inr xs" "len v2 = Inr (2 - 1)" "len v3 = Inr (2 - 1)"
    by blast
  from *(1) have v1: "v1 = Seq Items (items_indexer abcd) 1 (Some 4)"
    by (simp add: items_indexer_def CatalogBaseSequence_init_def colon_def slice_to_interval_def)
  from *(3) have v3: "v3 = Seq Items (items_indexer abcd) 2 (Some 3)"
    by (simp add: items_indexer_def CatalogBaseSequence_init_def colon_def slice_to_interval_def)
  have "iter (Seq Items (items_indexer abcd) 2 (Some 3)) = Inr [Item ''c'' 3]"
    by (simp add: items_indexer_def CatalogBaseSequence_init_def compose_intervals_present
          catalog_items_slice_def catalog_keys_slice_def catalog_keys_def islice_def
          abcd_def Catalog_init_def catalog_getitem_def)
  with * v1 v3 show ?thesis by auto
qed

text \<open>
  The length of a slice of \<^verbatim>\<open>keys_indexer\<close> whose start is within the catalog.
\<close>

lemma keys_indexer_len_in_range:
  assumes "0 \<le> a" "a \<le> b" "a \<le> catalog_len c"
  shows "len (Seq Keys (keys_indexer c) a (Some b)) = Inr (max 0 (min (catalog_len c) b - a))"
    and "len (Seq Keys (keys_indexer c) a None) = Inr (max 0 (catalog_len c - a))"
  using assms
  by (auto simp: len_def builtin_len_def keys_indexer_def CatalogBaseSequence_init_def
        catalog_len_def)

text \<open>
  C2. The length of \<^verbatim>\<open>C.keys_indexer[a:b]\<close> is claimed to be
  \<open>max(0, min(len(C), b) - a)\<close>, never negative, also for \<open>a > len(C)\<close>. On the
  catalog with the four keys a, b, c, d, \<^verbatim>\<open>__len__\<close> of \<^verbatim>\<open>keys_indexer[5:7]\<close>
  returns \<open>4 - 5 = -1\<close>, so \<^verbatim>\<open>len()\<close> raises \<^verbatim>\<open>ValueError\<close>, where the
  claim gives 0; iterating the same view yields no key.
\<close>

theorem keys_indexer_len_beyond_end:
  "\<exists>v. getitem (keys_indexer abcd) (SliceIdx (colon (Some 5) (Some 7))) = Inr (View v)
      \<and> dunder_len v = Inr (- 1) \<and> len v = Inl ValueError \<and> iter v = Inr []"
  by (simp add: keys_indexer_def CatalogBaseSequence_init_def colon_def slice_to_interval_def
        len_def builtin_len_def abcd_def Catalog_init_def catalog_len_def
        compose_intervals_present catalog_keys_slice_def catalog_keys_def islice_def)

text \<open>
  C3. Indexing a view at an integer is claimed to fail with \<^verbatim>\<open>IndexError\<close>
  whenever the index is at least the \<^verbatim>\<open>len()\<close> of the view, also when the view
  has a stop below the length of its ancestor. On the catalog with the keys a, b, c, d,
  the view \<^verbatim>\<open>items_indexer[0:2]\<close> has length 2, and index 3 returns the item of
  d: only the catalog at the end of the chain checks the index, against its own length.
\<close>

theorem view_index_past_stop:
  "\<exists>v. getitem (items_indexer abcd) (SliceIdx (colon (Some 0) (Some 2))) = Inr (View v)
      \<and> len v = Inr 2
      \<and> getitem v (IntIdx 3) = Inr (Elem (Item ''d'' 4))"
  by (simp add: items_indexer_def CatalogBaseSequence_init_def colon_def slice_to_interval_def
        len_def builtin_len_def abcd_def Catalog_init_def catalog_len_def
        catalog_item_by_index_def catalog_keys_def islice_def catalog_getitem_def)

text \<open>
  The length of a view wrapped around a view, and of the one view on the composed
  window: the same, as \<^verbatim>\<open>len()\<close> reports it.
\<close>

lemma len_wrap_flat:
  assumes "0 \<le> s"
  shows "len (Seq k (Seq k A p q) s t) =
         len (Seq k A (p + s)
                (case q of
                   None \<Rightarrow> (case t of None \<Rightarrow> None | Some t0 \<Rightarrow> Some (t0 + p))
                 | Some q0 \<Rightarrow> (case t of None \<Rightarrow> Some q0 | Some t0 \<Rightarrow> Some (min q0 (t0 + p)))))"
proof (cases "builtin_len (dunder_len A)")
  case (Inl e)
  then show ?thesis by (simp add: len_def builtin_len_def)
next
  case (Inr m)
  then show ?thesis
    using assms
    by (auto simp: len_def builtin_len_def min_def split: option.splits)
qed

text \<open>
  C9. For a view \<open>V\<close> with window \<open>(p, q)\<close> over an ancestor \<open>A\<close> and a slice
  request with interval \<open>(s, t)\<close>, the view that the code builds (ancestor \<open>V\<close>,
  window \<open>(s, t)\<close>) and the view of the eager composition (ancestor \<open>A\<close>, window
  \<open>compose((p, q), (s, t))\<close>) have the same \<^verbatim>\<open>len()\<close>, the same result or
  failure at every integer index, and the same iteration.
\<close>

theorem wrapping_equals_eager_composition:
  assumes "slice_to_interval sl = Inr (s, t)"
  shows "\<exists>w f.
      getitem (Seq k A p q) (SliceIdx sl) = Inr (View w)
    \<and> getitem_eager (Seq k A p q) (SliceIdx sl) = Inr (View f)
    \<and> len w = len f
    \<and> (\<forall>i. getitem w (IntIdx i) = getitem f (IntIdx i))
    \<and> iter w = iter f"
proof -
  let ?t' = "(case q of
                None \<Rightarrow> (case t of None \<Rightarrow> None | Some t0 \<Rightarrow> Some (t0 + p))
              | Some q0 \<Rightarrow> (case t of None \<Rightarrow> Some q0 | Some t0 \<Rightarrow> Some (min q0 (t0 + p))))"
  let ?w = "Seq k (Seq k A p q) s t"
  let ?f = "Seq k A (p + s) ?t'"
  have s0: "0 \<le> s"
    using assms by (auto simp: slice_to_interval_def split: option.splits if_splits)
  have gw: "getitem (Seq k A p q) (SliceIdx sl) = Inr (View ?w)"
    using assms by (simp add: CatalogBaseSequence_init_def)
  have gf: "getitem_eager (Seq k A p q) (SliceIdx sl) = Inr (View ?f)"
    using assms by (simp add: CatalogBaseSequence_init_def compose_intervals_present)
  have l: "len ?w = len ?f"
    by (rule len_wrap_flat [OF s0])
  have ix: "\<forall>i. getitem ?w (IntIdx i) = getitem ?f (IntIdx i)"
    by (simp add: add.assoc add.commute [of s p])
  have it: "iter ?w = iter ?f"
    by (cases k) (simp_all add: compose_intervals_present)
  show ?thesis using gw gf l ix it by blast
qed

theorem wrapping_equals_eager_composition_witness:
  "\<exists>w f.
      getitem (Seq Keys (keys_indexer abcd) 1 (Some 3)) (SliceIdx (colon (Some 1) (Some 5)))
        = Inr (View w)
    \<and> getitem_eager (Seq Keys (keys_indexer abcd) 1 (Some 3)) (SliceIdx (colon (Some 1) (Some 5)))
        = Inr (View f)
    \<and> w \<noteq> f
    \<and> len w = len f
    \<and> (\<forall>i. getitem w (IntIdx i) = getitem f (IntIdx i))
    \<and> iter w = iter f"
proof -
  have "slice_to_interval (colon (Some 1) (Some 5)) = Inr (1, Some 5)"
    by (simp add: slice_to_interval_def colon_def)
  from wrapping_equals_eager_composition [OF this, of Keys "keys_indexer abcd" 1 "Some 3"]
  obtain w f where
    *: "getitem (Seq Keys (keys_indexer abcd) 1 (Some 3)) (SliceIdx (colon (Some 1) (Some 5))) = Inr (View w)"
      "getitem_eager (Seq Keys (keys_indexer abcd) 1 (Some 3)) (SliceIdx (colon (Some 1) (Some 5))) = Inr (View f)"
      "len w = len f" "\<forall>i. getitem w (IntIdx i) = getitem f (IntIdx i)" "iter w = iter f"
    by blast
  from *(1,2) have "w \<noteq> f"
    by (auto simp: colon_def slice_to_interval_def CatalogBaseSequence_init_def
          compose_intervals_present)
  with * show ?thesis by blast
qed

section \<open>Full-text search: properties\<close>

text \<open>
  Reading a dict at each of its keys in turn gives the stored values in order, which is
  what the walk over the metadata and the loop over the items rely on.
\<close>

lemma dict_iteration_reads_pairs:
  "distinct (map fst t) \<Longrightarrow> map (map_of t) (map fst t) = map (\<lambda>kv. Some (snd kv)) t"
  by (induction t) (auto simp: rev_image_eqI)

text \<open>
  The walk of the source yields exactly the string leaves: every string it yields is
  one, and it misses none.
\<close>

lemma walk_node_leaves: "s \<in> set (walk_node m) \<longleftrightarrow> string_leaf m s"
proof
  show "s \<in> set (walk_node m) \<Longrightarrow> string_leaf m s"
  proof (induction m rule: walk_node.induct)
    case (1 s')
    then show ?case by (auto intro: string_leaf.scalar)
  next
    case (2 kvs)
    then obtain kv where "kv \<in> set kvs" "s \<in> set (walk_node (snd kv))" by auto
    with 2 show ?case
      by (cases kv) (auto intro: string_leaf.mapping_value)
  next
    case (3 items)
    then obtain item where i: "item \<in> set items"
        "s \<in> set (case item of MStr s \<Rightarrow> [s] | _ \<Rightarrow> [])" by auto
    then have "item = MStr s" by (cases item) auto
    with i show ?case by (auto intro: string_leaf.sequence_element)
  next
    case 4
    then show ?case by simp
  qed
next
  show "string_leaf m s \<Longrightarrow> s \<in> set (walk_node m)"
  proof (induction rule: string_leaf.induct)
    case (scalar s)
    then show ?case by simp
  next
    case (mapping_value k v kvs s)
    then show ?case by force
  next
    case (sequence_element s items)
    then show ?case by force
  qed
qed

lemma walk_string_values_leaves:
  "set (walk_string_values md) = {s. string_leaf (MMap md) s}"
  using walk_node_leaves [of _ "MMap md"]
  by (auto simp: walk_string_values_def)

text \<open>So the words that the source collects for an entry are its word set.\<close>

lemma metadata_words_walk:
  "metadata_words md
     = set (concat (map (\<lambda>s. str_split (str_lower s)) (walk_string_values md)))"
  using walk_string_values_leaves [of md]
  by (auto simp: metadata_words_def)

text \<open>A key that the dict does not hold yet is appended.\<close>

lemma update_fresh: "k \<notin> fst ` set al \<Longrightarrow> AList.update k v al = al @ [(k, v)]"
  by (induction al) auto

text \<open>
  The loop over the keys of a dict (distinct keys) whose values are in the store: it
  appends the matching entries to the matches, in order.
\<close>

lemma search_loop_filter:
  assumes "distinct (map fst (mapping c))" "valid_values h c"
  shows "mapping c = pre @ suf \<Longrightarrow> fst ` set acc \<subseteq> fst ` set pre \<Longrightarrow>
         search_loop h (str_split (str_lower t)) c (map fst suf) acc
           = Inr (acc @ filter (\<lambda>kv. entry_matches h t (snd kv)) suf)"
proof (induction suf arbitrary: pre acc)
  case Nil
  then show ?case by simp
next
  case (Cons kv suf)
  obtain k v where kv: "kv = (k, v)" by (cases kv)
  have m: "mapping c = (pre @ [(k, v)]) @ suf"
    using Cons.prems(1) kv by simp
  have "(k, v) \<in> set (mapping c)" using m by simp
  then have look: "catalog_getitem c k = Inr v"
    using assms(1) by (simp add: catalog_getitem_def)
  have "v < length h"
    using \<open>(k, v) \<in> set (mapping c)\<close> assms(2)
    by (auto simp: valid_values_def list_all_iff)
  then have ew: "entry_words h v =
      Inr (concat (map (\<lambda>s. str_split (str_lower s)) (walk_string_values (metadata_of (h ! v)))))"
    by (simp add: entry_words_def deref_def)
  have fresh: "k \<notin> fst ` set acc"
    using Cons.prems(2) assms(1) m by auto
  show ?case
  proof (cases "entry_matches h t v")
    case True
    have sub: "fst ` set (acc @ [(k, v)]) \<subseteq> fst ` set (pre @ [(k, v)])"
      using Cons.prems(2) by auto
    from Cons.IH [OF m sub] True look ew fresh show ?thesis
      by (simp add: kv isdisjoint_def entry_matches_def metadata_words_walk update_fresh)
  next
    case False
    have sub: "fst ` set acc \<subseteq> fst ` set (pre @ [(k, v)])"
      using Cons.prems(2) by auto
    from Cons.IH [OF m sub] False look ew show ?thesis
      by (simp add: kv isdisjoint_def entry_matches_def metadata_words_walk)
  qed
qed

lemma fruit_catalog:
  "deref fruit_heap 2 = Some (CatalogObj (Catalog_init ''Catalog'' [(''a'', 0), (''b'', 1)] None))"
  by (simp add: deref_def fruit_heap_def)

lemma fruit_valid:
  "valid_values fruit_heap (Catalog_init ''Catalog'' [(''a'', 0), (''b'', 1)] None)"
  by (simp add: valid_values_def fruit_heap_def Catalog_init_def)

text \<open>
  C4. For a catalog in the store (its keys distinct, as in a dict, its values objects
  of the store) and a \<open>Text\<close> query, \<open>search\<close> succeeds, leaves the store as it
  was and allocates one new catalog: of the class of the input, with empty metadata,
  and with exactly those entries of the input, in the order of the input and each with
  the address it had, for which the words of the string leaves of the metadata of the
  value (\<open>metadata_words\<close>, stated with \<open>string_leaf\<close>) and the words of the
  query text have a word in common.
\<close>

theorem text_search_filters:
  assumes "deref h c = Some (CatalogObj cat)"
    and "distinct (map fst (mapping cat))"
    and "valid_values h cat"
  shows "search h c (Text t) =
           Inr (h @ [CatalogObj \<lparr>cls = cls cat,
                                 mapping = filter (\<lambda>kv. entry_matches h t (snd kv)) (mapping cat),
                                 metadata = []\<rparr>],
                length h)"
proof -
  have "search_loop h (str_split (str_lower t)) cat (catalog_keys cat) []
          = Inr (filter (\<lambda>kv. entry_matches h t (snd kv)) (mapping cat))"
    using search_loop_filter [OF assms(2,3), of "[]" "mapping cat" "[]" t]
    by (simp add: catalog_keys_def)
  then show ?thesis
    using assms(1)
    by (simp add: search_def dispatch_def query_registry_def register_def
          full_text_search_def alloc_def Catalog_init_def)
qed

theorem text_search_filters_witness:
  "search nested_heap 3 (Text ''an APPLE'') =
     Inr (nested_heap
            @ [CatalogObj \<lparr>cls = ''Catalog'', mapping = [(''x'', 0), (''z'', 2)], metadata = []\<rparr>],
          4)"
proof -
  let ?cat = "Catalog_init ''Catalog'' [(''x'', 0::nat), (''y'', 1), (''z'', 2)]
                (Some [(''note'', MStr ''apple'')])"
  have c: "deref nested_heap 3 = Some (CatalogObj ?cat)"
    by (simp add: deref_def nested_heap_def)
  have d: "distinct (map fst (mapping ?cat))"
    by (simp add: Catalog_init_def)
  have v: "valid_values nested_heap ?cat"
    by (simp add: valid_values_def nested_heap_def Catalog_init_def)
  have x: "entry_matches nested_heap ''an APPLE'' 0"
    unfolding entry_matches_def metadata_words_walk by code_simp
  have y: "\<not> entry_matches nested_heap ''an APPLE'' 1"
    unfolding entry_matches_def metadata_words_walk by code_simp
  have z: "entry_matches nested_heap ''an APPLE'' 2"
    unfolding entry_matches_def metadata_words_walk by code_simp
  have n: "length nested_heap = 4"
    by (simp add: nested_heap_def)
  from text_search_filters [OF c d v, of "''an APPLE''"] x y z n
  show ?thesis
    by (simp add: Catalog_init_def)
qed

text \<open>Lower-casing keeps whitespace, and a text of whitespace has no words.\<close>

lemma lower_space: "is_space ch \<Longrightarrow> lower_char ch = ch"
  by (auto simp: is_space_def lower_char_def Let_def)

lemma split_from_spaces: "list_all is_space cs \<Longrightarrow> split_from [] cs = []"
  by (induction cs) auto

lemma split_lower_blank: "list_all is_space t \<Longrightarrow> str_split (str_lower t) = []"
proof -
  assume a: "list_all is_space t"
  then have "map lower_char t = t"
    by (induction t) (auto simp: lower_space)
  with a show ?thesis
    by (simp add: str_split_def str_lower_def split_from_spaces)
qed

text \<open>With no query word, the loop keeps no entry.\<close>

lemma search_loop_no_words:
  assumes "valid_values h c"
  shows "set ks \<subseteq> fst ` set (mapping c) \<Longrightarrow> search_loop h [] c ks acc = Inr acc"
proof (induction ks)
  case Nil
  then show ?case by simp
next
  case (Cons k ks)
  then have "k \<in> fst ` set (mapping c)" by simp
  then obtain v where v: "map_of (mapping c) k = Some v"
    by (metis domD dom_map_of_conv_image_fst)
  then have "(k, v) \<in> set (mapping c)" by (rule map_of_SomeD)
  then have "v < length h"
    using assms by (auto simp: valid_values_def list_all_iff)
  then obtain ws where "entry_words h v = Inr ws"
    by (simp add: entry_words_def deref_def)
  with v Cons show ?case
    by (simp add: catalog_getitem_def isdisjoint_def)
qed

text \<open>
  C10. For a catalog in the store whose values are objects of the store, a \<open>Text\<close>
  query whose text is empty or all whitespace has no query words, and the search
  returns a new catalog with no entries, whatever the metadata of the entries.
\<close>

theorem blank_text_search_empty:
  assumes "deref h c = Some (CatalogObj cat)"
    and "valid_values h cat"
    and "list_all is_space t"
  shows "str_split (str_lower t) = []
       \<and> search h c (Text t) =
           Inr (h @ [CatalogObj \<lparr>cls = cls cat, mapping = [], metadata = []\<rparr>], length h)"
proof -
  have "search_loop h [] cat (catalog_keys cat) [] = Inr []"
    by (rule search_loop_no_words [OF assms(2)]) (simp add: catalog_keys_def)
  then show ?thesis
    using assms(1) split_lower_blank [OF assms(3)]
    by (simp add: search_def dispatch_def query_registry_def register_def
          full_text_search_def alloc_def Catalog_init_def)
qed

theorem blank_text_search_empty_witness:
  "search fruit_heap 2 (Text [CHR '' '', CHR 0x09]) =
     Inr (fruit_heap @ [CatalogObj \<lparr>cls = ''Catalog'', mapping = [], metadata = []\<rparr>], 3)"
proof -
  have s: "list_all is_space [CHR '' '', CHR 0x09]"
    by (simp add: is_space_def)
  have n: "length fruit_heap = 3"
    by (simp add: fruit_heap_def)
  from blank_text_search_empty [OF fruit_catalog fruit_valid s] n
  show ?thesis
    by (simp add: Catalog_init_def)
qed

text \<open>
  C8. When \<open>search\<close> succeeds, every object that was in the store is unchanged, in
  particular the receiver (its keys, values, order and metadata), and the result is an
  object that was not in the store before, so it is not the receiver.
\<close>

theorem search_leaves_receiver:
  assumes "search h c q = Inr (h', r)"
  shows "take (length h) h' = h \<and> deref h' c = deref h c \<and> deref h c \<noteq> None
       \<and> deref h r = None \<and> deref h' r \<noteq> None \<and> r \<noteq> c"
proof -
  from assms obtain t where q: "q = Text t"
    by (cases q) (auto simp: search_def dispatch_def query_registry_def register_def)
  from assms q have f: "full_text_search h (Text t) c = Inr (h', r)"
    by (simp add: search_def dispatch_def query_registry_def register_def)
  then obtain ob where h': "h' = h @ [ob]" and r: "r = length h" and c: "c < length h"
    by (auto simp: full_text_search_def alloc_def deref_def
          split: option.splits obj.splits sum.splits if_splits)
  then show ?thesis
    by (simp add: deref_def nth_append)
qed

lemma fruit_banana:
  "search fruit_heap 2 (Text ''BANANA'') =
     Inr (fruit_heap @ [CatalogObj \<lparr>cls = ''Catalog'', mapping = [(''b'', 1)], metadata = []\<rparr>], 3)"
  by code_simp

theorem search_leaves_receiver_witness:
  "take (length fruit_heap)
        (fruit_heap @ [CatalogObj \<lparr>cls = ''Catalog'', mapping = [(''b'', 1)], metadata = []\<rparr>])
     = fruit_heap
   \<and> deref (fruit_heap @ [CatalogObj \<lparr>cls = ''Catalog'', mapping = [(''b'', 1)], metadata = []\<rparr>]) 2
     = deref fruit_heap 2
   \<and> deref fruit_heap 3 = None
   \<and> (3::nat) \<noteq> 2"
  using search_leaves_receiver [OF fruit_banana]
  by simp

end
